theory Spec2Isabelle
  imports Main "HOL-Library.Sublist" "HOL-Library.Multiset"
begin

section \<open>The delete-files plugin of Heft\<close>

text \<open>
  The development embeds \<^verbatim>\<open>apps/heft/src/plugins/DeleteFilesPlugin.ts\<close>: the resolver
  \<^verbatim>\<open>_getPathsToDeleteAsync\<close>, the deleter \<^verbatim>\<open>_deleteFilesInnerAsync\<close> and the entry
  point \<^verbatim>\<open>deleteFilesAsync\<close>. An Isabelle name cannot start with an underscore, so the
  two private functions lose theirs.

  The plugin is asynchronous. Every callback it hands to \<^verbatim>\<open>Async.forEachAsync\<close> awaits
  exactly one library call and then runs synchronous code, so on JavaScript's single
  thread each item contributes one indivisible step. A run is therefore described by the
  order in which these steps take effect, and that order is the list the model iterates
  over; statements that must hold for every schedule quantify over that list.
\<close>

subsection \<open>Values\<close>

type_synonym path = string

text \<open>
  Thrown values. The plugin looks at an error only through
  \<^verbatim>\<open>FileSystem.isNotExistError\<close>; the three constructors are the three conditions of
  the specification's taxonomy.
\<close>

datatype error = NotExistError | DeletionError string | SelectionError string

text \<open>Of an \<^verbatim>\<open>fs.Dirent\<close> the plugin reads \<^verbatim>\<open>isDirectory()\<close> only.\<close>

datatype Dirent = Dirent (isDirectory: bool)

text \<open>
  A JavaScript \<^verbatim>\<open>Set<string>\<close> is its elements in insertion order, each once; \<^verbatim>\<open>add\<close>
  of an element already present changes nothing.
\<close>

definition Set_add :: "'a \<Rightarrow> 'a list \<Rightarrow> 'a list" where
  "Set_add x xs = (if x \<in> set xs then xs else xs @ [x])"

record IGetPathsToDeleteResult =
  filesToDelete :: "path list"
  foldersToDelete :: "path list"

text \<open>What the terminal has been asked to print, oldest line first.\<close>

datatype terminal_line = Line string | VerboseLine string

text \<open>The deletion requests that reached the file system, oldest first.\<close>

datatype fs_call = DeleteFile path | DeleteFolder path

text \<open>
  Everything the plugin acts on and reads: the disk, the delete-operation objects the
  caller holds (by reference, a number), the terminal, the record of deletion requests,
  and the value of \<^verbatim>\<open>Constants.maxParallelism\<close>, whose declaration is not among the sources.
\<close>

record ('fs, 'spec) world =
  disk :: "'fs"
  heap :: "nat \<Rightarrow> 'spec"
  terminal :: "terminal_line list"
  calls :: "fs_call list"
  maxParallelism :: nat

text \<open>
  A settled promise: fulfilled, or rejected with the thrown value. Both carry the state
  reached, so that what a failed run has done remains visible.
\<close>

datatype 's outcome = Done 's | Threw error 's

fun final :: "'s outcome \<Rightarrow> 's" where
  "final (Done s) = s"
| "final (Threw e s) = s"

subsection \<open>The libraries the plugin calls\<close>

text \<open>
  None of \<^verbatim>\<open>@rushstack/node-core-library\<close> and \<^verbatim>\<open>FileGlobSpecifier\<close> is among the
  sources. What their functions do to the disk and to a specifier is a parameter of the
  model: a \<open>platform\<close>. \<open>unlinkFile p throwIfNotExists d\<close> and \<open>removeFolder p d\<close> give
  the disk after the removal or the error raised, \<open>normalizeSpec root spec\<close> the
  normalised specifier, \<open>selectPaths spec includeFolders d\<close> the selected paths with
  their directory entries or the error raised.
\<close>

record ('fs, 'spec) platform =
  unlinkFile :: "path \<Rightarrow> bool \<Rightarrow> 'fs \<Rightarrow> error + 'fs"
  removeFolder :: "path \<Rightarrow> 'fs \<Rightarrow> error + 'fs"
  normalizeSpec :: "path \<Rightarrow> 'spec \<Rightarrow> 'spec"
  selectPaths :: "'spec \<Rightarrow> bool \<Rightarrow> 'fs \<Rightarrow> error + (path \<times> Dirent) list"

definition isNotExistError :: "error \<Rightarrow> bool" where
  \<comment> \<open>Modelled from the spec: \<^verbatim>\<open>FileSystem.isNotExistError\<close> is not among the sources;
      it recognises the typed condition "target does not exist".\<close>
  "isNotExistError e = (case e of NotExistError \<Rightarrow> True | _ \<Rightarrow> False)"

definition deleteFileAsync ::
  "('fs, 'spec) platform \<Rightarrow> path \<Rightarrow> bool \<Rightarrow> ('fs, 'spec) world \<Rightarrow> ('fs, 'spec) world outcome" where
  \<comment> \<open>Modelled from the spec: \<^verbatim>\<open>FileSystem.deleteFileAsync\<close> is not among the sources; it
      is the single-file deletion primitive. The request is recorded, then the platform
      decides.\<close>
  "deleteFileAsync P p throwIfNotExists w =
     (let w1 = w\<lparr>calls := calls w @ [DeleteFile p]\<rparr> in
      case unlinkFile P p throwIfNotExists (disk w) of
        Inl e \<Rightarrow> Threw e w1
      | Inr d \<Rightarrow> Done (w1\<lparr>disk := d\<rparr>))"

definition deleteFolderAsync ::
  "('fs, 'spec) platform \<Rightarrow> path \<Rightarrow> ('fs, 'spec) world \<Rightarrow> ('fs, 'spec) world outcome" where
  \<comment> \<open>Modelled from the spec: \<^verbatim>\<open>FileSystem.deleteFolderAsync\<close> is not among the sources;
      it is the directory removal primitive.\<close>
  "deleteFolderAsync P p w =
     (let w1 = w\<lparr>calls := calls w @ [DeleteFolder p]\<rparr> in
      case removeFolder P p (disk w) of
        Inl e \<Rightarrow> Threw e w1
      | Inr d \<Rightarrow> Done (w1\<lparr>disk := d\<rparr>))"

definition normalizeFileSelectionSpecifier ::
  "('fs, 'spec) platform \<Rightarrow> path \<Rightarrow> nat \<Rightarrow> ('fs, 'spec) world \<Rightarrow> ('fs, 'spec) world" where
  \<comment> \<open>Modelled from the spec: \<^verbatim>\<open>normalizeFileSelectionSpecifier\<close> is not among the
      sources. It returns nothing and the plugin hands the same object to the selector
      afterwards, so the normalisation is written into the object the reference denotes.\<close>
  "normalizeFileSelectionSpecifier P rootPath r w =
     w\<lparr>heap := (heap w)(r := normalizeSpec P rootPath (heap w r))\<rparr>"

definition getFileSelectionSpecifierPathsAsync ::
  "('fs, 'spec) platform \<Rightarrow> nat \<Rightarrow> bool \<Rightarrow> ('fs, 'spec) world \<Rightarrow> error + (path \<times> Dirent) list" where
  \<comment> \<open>Modelled from the spec: \<^verbatim>\<open>getFileSelectionSpecifierPathsAsync\<close> is not among the
      sources; it reads the specifier object and the disk and changes neither. The list
      is the returned \<^verbatim>\<open>Map\<close> in iteration order.\<close>
  "getFileSelectionSpecifierPathsAsync P fileGlobSpecifier includeFolders w =
     selectPaths P (heap w fileGlobSpecifier) includeFolders (disk w)"

definition writeLine :: "string \<Rightarrow> ('fs, 'spec) world \<Rightarrow> ('fs, 'spec) world" where
  "writeLine msg w = w\<lparr>terminal := terminal w @ [Line msg]\<rparr>"

definition writeVerboseLine :: "string \<Rightarrow> ('fs, 'spec) world \<Rightarrow> ('fs, 'spec) world" where
  "writeVerboseLine msg w = w\<lparr>terminal := terminal w @ [VerboseLine msg]\<rparr>"

text \<open>
  \<^verbatim>\<open>Async.forEachAsync(iterable, callback, { concurrency })\<close> runs the callback on every
  item, at most \<open>concurrency\<close> of them at a time. The list is the order in which the
  items' steps take effect. When a callback throws, no further item is started, but the
  callbacks already in flight, at most \<open>concurrency - 1\<close> of them, still run to their end,
  whatever that is: \<open>settle\<close>.
\<close>

primrec settle :: "'a list \<Rightarrow> ('a \<Rightarrow> 's \<Rightarrow> 's outcome) \<Rightarrow> 's \<Rightarrow> 's" where
  "settle [] callback s = s"
| "settle (x # xs) callback s = settle xs callback (final (callback x s))"

primrec forEachAsync ::
  "'a list \<Rightarrow> ('a \<Rightarrow> 's \<Rightarrow> 's outcome) \<Rightarrow> nat \<Rightarrow> 's \<Rightarrow> 's outcome" where
  \<comment> \<open>Modelled from the spec: \<^verbatim>\<open>Async.forEachAsync\<close> is not among the sources. It is
      fulfilled once the callback has been fulfilled for every item, and rejected with
      the first error a callback throws. The state of a rejection is the one reached when
      the callbacks that were in flight have settled too.\<close>
  "forEachAsync [] callback concurrency s = Done s"
| "forEachAsync (x # xs) callback concurrency s =
     (case callback x s of
        Threw e s' \<Rightarrow> Threw e (settle (take (concurrency - 1) xs) callback s')
      | Done s' \<Rightarrow> forEachAsync xs callback concurrency s')"

subsection \<open>Template literals\<close>

text \<open>
  \<^verbatim>\<open>`${n}`\<close> of an integral number is its decimal numeral, with a minus sign when
  negative.
\<close>

fun digits :: "nat \<Rightarrow> string" where
  "digits n =
     (if n < 10 then [''0123456789'' ! n]
      else digits (n div 10) @ [''0123456789'' ! (n mod 10)])"

declare digits.simps [simp del]

definition toString :: "int \<Rightarrow> string" where
  "toString i = (if i < 0 then ''-'' @ digits (nat (- i)) else digits (nat i))"

definition quoted :: "string \<Rightarrow> string" where
  "quoted s = [CHR 0x22] @ s @ [CHR 0x22]"

subsection \<open>The resolver\<close>

definition addSourcePath ::
  "path \<times> Dirent \<Rightarrow> IGetPathsToDeleteResult \<Rightarrow> IGetPathsToDeleteResult" where
  \<comment> \<open>the body of the \<^verbatim>\<open>for\<close> loop, lines 53 to 57\<close>
  "addSourcePath entry result =
     (case entry of (sourcePath, dirent) \<Rightarrow>
        if isDirectory dirent
        then result\<lparr>foldersToDelete := Set_add sourcePath (foldersToDelete result)\<rparr>
        else result\<lparr>filesToDelete := Set_add sourcePath (filesToDelete result)\<rparr>)"

definition resolveOperation ::
  "('fs, 'spec) platform \<Rightarrow> path \<Rightarrow> nat \<Rightarrow>
   IGetPathsToDeleteResult \<times> ('fs, 'spec) world \<Rightarrow>
   (IGetPathsToDeleteResult \<times> ('fs, 'spec) world) outcome" where
  \<comment> \<open>the callback of lines 44 to 59\<close>
  "resolveOperation P rootFolderPath deleteOperation st =
     (let result = fst st;
          w1 = normalizeFileSelectionSpecifier P rootFolderPath deleteOperation (snd st)
      in case getFileSelectionSpecifierPathsAsync P deleteOperation True w1 of
           Inl e \<Rightarrow> Threw e (result, w1)
         | Inr sourcePaths \<Rightarrow> Done (fold addSourcePath sourcePaths result, w1))"

definition getPathsToDeleteAsync ::
  "('fs, 'spec) platform \<Rightarrow> path \<Rightarrow> nat list \<Rightarrow> ('fs, 'spec) world \<Rightarrow>
   (IGetPathsToDeleteResult \<times> ('fs, 'spec) world) outcome" where
  "getPathsToDeleteAsync P rootFolderPath deleteOperations w =
     forEachAsync deleteOperations (resolveOperation P rootFolderPath) (maxParallelism w)
       (\<lparr>filesToDelete = [], foldersToDelete = []\<rparr>, w)"

subsection \<open>The deleter\<close>

text \<open>The activation of \<^verbatim>\<open>_deleteFilesInnerAsync\<close>: its two counters and the world.\<close>

record ('fs, 'spec) frame =
  deletedFiles :: int
  deletedFolders :: int
  world :: "('fs, 'spec) world"

definition deleteOneFile ::
  "('fs, 'spec) platform \<Rightarrow> path \<Rightarrow> ('fs, 'spec) frame \<Rightarrow> ('fs, 'spec) frame outcome" where
  \<comment> \<open>the callback of lines 89 to 100\<close>
  "deleteOneFile P pathToDelete s =
     (case deleteFileAsync P pathToDelete True (world s) of
        Done w \<Rightarrow>
          Done (s\<lparr>deletedFiles := deletedFiles s + 1,
                  world := writeVerboseLine (''Deleted '' @ quoted pathToDelete @ ''.'') w\<rparr>)
      | Threw e w \<Rightarrow>
          if \<not> isNotExistError e then Threw e (s\<lparr>world := w\<rparr>)
          else Done (s\<lparr>world := w\<rparr>))"

definition deleteOneFolder ::
  "('fs, 'spec) platform \<Rightarrow> path \<Rightarrow> ('fs, 'spec) frame \<Rightarrow> ('fs, 'spec) frame outcome" where
  \<comment> \<open>the callback of lines 108 to 119\<close>
  "deleteOneFolder P folderToDelete s =
     (case deleteFolderAsync P folderToDelete (world s) of
        Done w \<Rightarrow>
          Done (s\<lparr>deletedFolders := deletedFolders s + 1,
                  world := writeVerboseLine (''Deleted folder '' @ quoted folderToDelete @ ''.'') w\<rparr>)
      | Threw e w \<Rightarrow>
          if \<not> isNotExistError e then Threw e (s\<lparr>world := w\<rparr>)
          else Done (s\<lparr>world := w\<rparr>))"

definition summaryLine :: "int \<Rightarrow> int \<Rightarrow> string" where
  \<comment> \<open>the template literal of lines 125 and 126\<close>
  "summaryLine nFiles nFolders =
     (''Deleted '' @ toString nFiles @ '' file'' @ (if nFiles \<noteq> 1 then ''s'' else '''') @ '' '') @
     (''and '' @ toString nFolders @ '' folder'' @ (if nFolders \<noteq> 1 then ''s'' else ''''))"

definition report :: "('fs, 'spec) frame \<Rightarrow> ('fs, 'spec) frame" where
  \<comment> \<open>lines 123 to 128\<close>
  "report s =
     (if deletedFiles s > 0 \<or> deletedFolders s > 0
      then s\<lparr>world := writeLine (summaryLine (deletedFiles s) (deletedFolders s)) (world s)\<rparr>
      else s)"

definition deleteFilesInnerAsync ::
  "('fs, 'spec) platform \<Rightarrow> IGetPathsToDeleteResult \<Rightarrow> ('fs, 'spec) world \<Rightarrow>
   ('fs, 'spec) frame outcome" where
  "deleteFilesInnerAsync P pathsToDelete w =
     (case forEachAsync (filesToDelete pathsToDelete) (deleteOneFile P) (maxParallelism w)
             \<lparr>deletedFiles = 0, deletedFolders = 0, world = w\<rparr> of
        Threw e s \<Rightarrow> Threw e s
      | Done s1 \<Rightarrow>
          (case forEachAsync (foldersToDelete pathsToDelete) (deleteOneFolder P)
                  (maxParallelism w) s1 of
             Threw e s \<Rightarrow> Threw e s
           | Done s2 \<Rightarrow> Done (report s2)))"

subsection \<open>The entry point\<close>

definition deleteFilesAsync ::
  "('fs, 'spec) platform \<Rightarrow> path \<Rightarrow> nat list \<Rightarrow> ('fs, 'spec) world \<Rightarrow> ('fs, 'spec) world outcome" where
  "deleteFilesAsync P rootFolderPath deleteOperations w =
     (case getPathsToDeleteAsync P rootFolderPath deleteOperations w of
        Threw e st \<Rightarrow> Threw e (snd st)
      | Done st \<Rightarrow>
          (case deleteFilesInnerAsync P (fst st) (snd st) of
             Threw e s \<Rightarrow> Threw e (world s)
           | Done s \<Rightarrow> Done (world s)))"

subsection \<open>A concrete platform\<close>

text \<open>
  For the scenarios a concrete platform is needed. The disk is the list of the paths that
  exist, the directory entry of every path, and the paths whose removal is refused for
  want of permission. Removal never changes the kind of an entry and never creates one.
\<close>

record filesystem =
  paths :: "path list"
  dirent_of :: "path \<Rightarrow> Dirent"
  locked :: "path list"

definition inside :: "path \<Rightarrow> path \<Rightarrow> bool" where
  "inside folder p = prefix (folder @ ''/'') p"

definition spec_unlinkFile :: "path \<Rightarrow> bool \<Rightarrow> filesystem \<Rightarrow> error + filesystem" where
  \<comment> \<open>Modelled from the spec: the deletion primitive for a single file, which tells
      "target does not exist" from every other failure. A path of the wrong kind, or one
      that may not be removed, is such another failure.\<close>
  "spec_unlinkFile p throwIfNotExists d =
     (if p \<notin> set (paths d) then (if throwIfNotExists then Inl NotExistError else Inr d)
      else if p \<in> set (locked d) then Inl (DeletionError ''EPERM'')
      else if isDirectory (dirent_of d p) then Inl (DeletionError ''EISDIR'')
      else Inr (d\<lparr>paths := removeAll p (paths d)\<rparr>))"

definition spec_removeFolder :: "path \<Rightarrow> filesystem \<Rightarrow> error + filesystem" where
  \<comment> \<open>Modelled from the spec: the removal primitive for a folder, read with the two call
      sites. Line 91 has to ask the file primitive to raise when its target is missing
      (\<^verbatim>\<open>throwIfNotExists: true\<close>); line 110 asks nothing of the folder primitive, for
      which a missing folder is no failure: there is nothing to remove. A folder goes with
      everything inside it, and stays when it, or something inside it, may not be
      removed.\<close>
  "spec_removeFolder p d =
     (if p \<notin> set (paths d) then Inr d
      else if list_ex (\<lambda>q. q \<in> set (locked d)) (p # filter (inside p) (paths d))
      then Inl (DeletionError ''EPERM'')
      else Inr (d\<lparr>paths := filter (\<lambda>q. q \<noteq> p \<and> \<not> inside p q) (paths d)\<rparr>))"

definition spec_selectPaths ::
  "('spec \<Rightarrow> (path \<Rightarrow> bool) option) \<Rightarrow> 'spec \<Rightarrow> bool \<Rightarrow> filesystem \<Rightarrow>
   error + (path \<times> Dirent) list" where
  \<comment> \<open>Modelled from the spec: the path selector maps a specifier to the existing paths
      it matches, each with its directory entry, folders included on request; a pattern
      that cannot be parsed is a selection error. Parsing and matching belong to the glob
      library: \<open>glob spec\<close> is \<open>None\<close> for an unparsable specifier and the matching
      predicate otherwise.\<close>
  "spec_selectPaths glob spec includeFolders d =
     (case glob spec of
        None \<Rightarrow> Inl (SelectionError ''cannot parse the pattern'')
      | Some matches \<Rightarrow>
          Inr (map (\<lambda>p. (p, dirent_of d p))
                 (filter (\<lambda>p. matches p \<and> (includeFolders \<or> \<not> isDirectory (dirent_of d p)))
                    (paths d))))"

definition spec_platform ::
  "('spec \<Rightarrow> (path \<Rightarrow> bool) option) \<Rightarrow> (path \<Rightarrow> 'spec \<Rightarrow> 'spec) \<Rightarrow> (filesystem, 'spec) platform" where
  "spec_platform glob normalise =
     \<lparr>unlinkFile = spec_unlinkFile, removeFolder = spec_removeFolder,
      normalizeSpec = normalise, selectPaths = spec_selectPaths glob\<rparr>"

subsection \<open>Example data\<close>

text \<open>
  A stand-in for the glob library, for the examples only: a specifier is one pattern of
  the shape \<^verbatim>\<open>dir/**\<close>, which selects \<^verbatim>\<open>dir\<close> and everything inside it; a relative
  pattern is resolved against the root folder.
\<close>

definition subtree_glob :: "string \<Rightarrow> (path \<Rightarrow> bool) option" where
  "subtree_glob pat =
     (if 3 \<le> length pat \<and> drop (length pat - 3) pat = ''/**''
      then Some (\<lambda>p. p = take (length pat - 3) pat \<or> inside (take (length pat - 3) pat) p)
      else None)"

definition resolve_pattern :: "path \<Rightarrow> string \<Rightarrow> string" where
  "resolve_pattern root pat = (if take 1 pat = ''/'' then pat else root @ ''/'' @ pat)"

definition example_platform :: "(filesystem, string) platform" where
  "example_platform = spec_platform subtree_glob resolve_pattern"

definition proj_disk :: filesystem where
  "proj_disk =
     \<lparr>paths = [''/proj/build'', ''/proj/build/a.txt'', ''/proj/build/b.txt''],
      dirent_of = (\<lambda>p. Dirent (p = ''/proj/build'')),
      locked = []\<rparr>"

definition proj_world :: "(filesystem, string) world" where
  "proj_world =
     \<lparr>disk = proj_disk, heap = (\<lambda>r. ''build/**''), terminal = [], calls = [],
      maxParallelism = 4\<rparr>"

text \<open>Two operations that select the same paths: the second is the first, normalised.\<close>

definition overlap_world :: "(filesystem, string) world" where
  "overlap_world =
     proj_world\<lparr>heap := (\<lambda>r. if r = 0 then ''build/**'' else ''/proj/build/**'')\<rparr>"

text \<open>A folder with a folder inside, and nothing else.\<close>

definition nested_world :: "(filesystem, string) world" where
  "nested_world =
     \<lparr>disk = \<lparr>paths = [''/proj/build'', ''/proj/build/sub''],
              dirent_of = (\<lambda>p. Dirent True), locked = []\<rparr>,
      heap = (\<lambda>r. ''build/**''), terminal = [], calls = [], maxParallelism = 4\<rparr>"

text \<open>A protected file beside an empty folder.\<close>

definition locked_world :: "(filesystem, string) world" where
  "locked_world =
     \<lparr>disk = \<lparr>paths = [''/proj/locked.txt'', ''/proj/empty''],
              dirent_of = (\<lambda>p. Dirent (p = ''/proj/empty'')),
              locked = [''/proj/locked.txt'']\<rparr>,
      heap = (\<lambda>r. ''empty/**''), terminal = [], calls = [], maxParallelism = 4\<rparr>"

subsection \<open>Vocabulary of the statements\<close>

text \<open>The lines written with \<^verbatim>\<open>writeLine\<close>, the verbose ones left out.\<close>

fun printed :: "terminal_line list \<Rightarrow> string list" where
  "printed [] = []"
| "printed (Line msg # t) = msg # printed t"
| "printed (VerboseLine msg # t) = printed t"

text \<open>
  The wording the specification asks of the reporter: a count followed by its noun, in
  the singular for a count of one and in the plural otherwise.
\<close>

definition spec_counted :: "int \<Rightarrow> string \<Rightarrow> string" where
  "spec_counted n noun = toString n @ '' '' @ (if n = 1 then noun else noun @ ''s'')"

subsection \<open>Vocabulary of the proofs\<close>

text \<open>
  The effect of one callback of the resolver on what cannot depend on the order of the
  callbacks: the operation objects, the members of the two sets, and whether every
  selection so far has succeeded. It serves the proofs only.
\<close>

definition merge_selection ::
  "('fs, 'spec) platform \<Rightarrow> path \<Rightarrow> 'fs \<Rightarrow> nat \<Rightarrow>
   (nat \<Rightarrow> 'spec) \<times> path set \<times> path set \<times> bool \<Rightarrow>
   (nat \<Rightarrow> 'spec) \<times> path set \<times> path set \<times> bool" where
  "merge_selection P root d r a =
     (case a of (h, F, D, ok) \<Rightarrow>
        (case selectPaths P (normalizeSpec P root (h r)) True d of
           Inl e \<Rightarrow> (h(r := normalizeSpec P root (h r)), F, D, False)
         | Inr sp \<Rightarrow>
             (h(r := normalizeSpec P root (h r)),
              F \<union> {p. \<exists>e. (p, e) \<in> set sp \<and> \<not> isDirectory e},
              D \<union> {p. \<exists>e. (p, e) \<in> set sp \<and> isDirectory e},
              ok)))"

section \<open>Properties\<close>

subsection \<open>What a loop has done when it has settled\<close>

text \<open>
  Fulfilled or rejected, \<open>forEachAsync\<close> has run the callback on an initial part of the
  list, one item after the other, and on the whole list when it is fulfilled.
\<close>

lemma forEachAsync_final:
  "\<exists>ys. prefix ys xs \<and> prefix (take 1 xs) ys \<and>
     final (forEachAsync xs callback c s) = settle ys callback s \<and>
     (\<forall>s'. forEachAsync xs callback c s = Done s' \<longrightarrow> ys = xs)"
proof (induction xs arbitrary: s)
  case Nil
  show ?case by simp
next
  case (Cons x xs)
  show ?case
  proof (cases "callback x s")
    case (Threw e s')
    then have "final (forEachAsync (x # xs) callback c s) =
        settle (x # take (c - 1) xs) callback s"
      by simp
    moreover have "prefix (x # take (c - 1) xs) (x # xs)"
      "prefix (take 1 (x # xs)) (x # take (c - 1) xs)"
      by (simp_all add: take_is_prefix)
    moreover have "\<forall>t. forEachAsync (x # xs) callback c s = Done t \<longrightarrow>
        x # take (c - 1) xs = x # xs"
      using Threw by simp
    ultimately show ?thesis by blast
  next
    case (Done s')
    from Cons.IH [of s'] obtain ys where ys: "prefix ys xs"
      "final (forEachAsync xs callback c s') = settle ys callback s'"
      "\<forall>t. forEachAsync xs callback c s' = Done t \<longrightarrow> ys = xs"
      by blast
    from Done ys(2) have "final (forEachAsync (x # xs) callback c s) =
        settle (x # ys) callback s"
      by simp
    moreover have "prefix (x # ys) (x # xs)" "prefix (take 1 (x # xs)) (x # ys)"
      using ys(1) by simp_all
    moreover have "\<forall>t. forEachAsync (x # xs) callback c s = Done t \<longrightarrow> x # ys = x # xs"
      using ys(3) Done by simp
    ultimately show ?thesis by blast
  qed
qed

lemma settle_invariant:
  assumes step: "\<And>x s. I s \<Longrightarrow> I (final (callback x s))"
    and init: "I s"
  shows "I (settle xs callback s)"
  using init
proof (induction xs arbitrary: s)
  case Nil
  then show ?case by simp
next
  case (Cons x xs)
  from Cons.IH [OF step [OF Cons.prems, of x]] show ?case by simp
qed

lemma forEachAsync_invariant:
  assumes step: "\<And>x s. I s \<Longrightarrow> I (final (callback x s))"
    and init: "I s"
  shows "I (final (forEachAsync xs callback c s))"
proof -
  from forEachAsync_final [of xs callback c s] obtain ys where
    "final (forEachAsync xs callback c s) = settle ys callback s"
    by blast
  with settle_invariant [where I = I and xs = ys, OF step init] show ?thesis
    by simp
qed

lemma forEachAsync_Threw:
  assumes "\<And>x s e s'. callback x s = Threw e s' \<Longrightarrow> Q e"
    and "forEachAsync xs callback c s = Threw e s'"
  shows "Q e"
  using assms(2)
proof (induction xs arbitrary: s)
  case Nil
  then show ?case by simp
next
  case (Cons x xs)
  then show ?case
    by (cases "callback x s") (auto dest: assms(1))
qed

subsection \<open>The counters\<close>

lemma deleteOneFile_counters:
  "deletedFiles s \<le> deletedFiles (final (deleteOneFile P p s)) \<and>
   deletedFiles (final (deleteOneFile P p s)) \<le> deletedFiles s + 1 \<and>
   deletedFolders (final (deleteOneFile P p s)) = deletedFolders s"
  by (simp add: deleteOneFile_def split: outcome.split)

lemma deleteOneFolder_counters:
  "deletedFolders s \<le> deletedFolders (final (deleteOneFolder P p s)) \<and>
   deletedFolders (final (deleteOneFolder P p s)) \<le> deletedFolders s + 1 \<and>
   deletedFiles (final (deleteOneFolder P p s)) = deletedFiles s"
  by (simp add: deleteOneFolder_def split: outcome.split)

lemma settle_files_counters:
  "deletedFiles s \<le> deletedFiles (settle xs (deleteOneFile P) s) \<and>
   deletedFiles (settle xs (deleteOneFile P) s) \<le> deletedFiles s + int (length xs) \<and>
   deletedFolders (settle xs (deleteOneFile P) s) = deletedFolders s"
proof (induction xs arbitrary: s)
  case Nil
  show ?case by simp
next
  case (Cons x xs)
  from deleteOneFile_counters [of s P x] Cons.IH [of "final (deleteOneFile P x s)"]
  show ?case by simp
qed

lemma settle_folders_counters:
  "deletedFolders s \<le> deletedFolders (settle xs (deleteOneFolder P) s) \<and>
   deletedFolders (settle xs (deleteOneFolder P) s) \<le> deletedFolders s + int (length xs) \<and>
   deletedFiles (settle xs (deleteOneFolder P) s) = deletedFiles s"
proof (induction xs arbitrary: s)
  case Nil
  show ?case by simp
next
  case (Cons x xs)
  from deleteOneFolder_counters [of s P x] Cons.IH [of "final (deleteOneFolder P x s)"]
  show ?case by simp
qed

lemma forEach_files_counters:
  "deletedFiles s \<le> deletedFiles (final (forEachAsync xs (deleteOneFile P) c s)) \<and>
   deletedFiles (final (forEachAsync xs (deleteOneFile P) c s)) \<le> deletedFiles s + int (length xs) \<and>
   deletedFolders (final (forEachAsync xs (deleteOneFile P) c s)) = deletedFolders s"
proof -
  from forEachAsync_final [of xs "deleteOneFile P" c s] obtain ys where
    ys: "prefix ys xs" and
    settled: "final (forEachAsync xs (deleteOneFile P) c s) = settle ys (deleteOneFile P) s"
    by blast
  from ys have "length ys \<le> length xs" by (rule prefix_length_le)
  with settle_files_counters [of s ys P] settled show ?thesis by simp
qed

lemma forEach_folders_counters:
  "deletedFolders s \<le> deletedFolders (final (forEachAsync xs (deleteOneFolder P) c s)) \<and>
   deletedFolders (final (forEachAsync xs (deleteOneFolder P) c s)) \<le> deletedFolders s + int (length xs) \<and>
   deletedFiles (final (forEachAsync xs (deleteOneFolder P) c s)) = deletedFiles s"
proof -
  from forEachAsync_final [of xs "deleteOneFolder P" c s] obtain ys where
    ys: "prefix ys xs" and
    settled: "final (forEachAsync xs (deleteOneFolder P) c s) = settle ys (deleteOneFolder P) s"
    by blast
  from ys have "length ys \<le> length xs" by (rule prefix_length_le)
  with settle_folders_counters [of s ys P] settled show ?thesis by simp
qed

lemma report_counters:
  "deletedFiles (report s) = deletedFiles s \<and> deletedFolders (report s) = deletedFolders s"
  by (simp add: report_def)

text \<open>
  C10. Both counters start at zero and grow by at most one for each item attempted, so
  when the deleter settles, fulfilled or rejected, each lies between zero and the size
  of its set (the length of the list of the set's elements).
\<close>

theorem counters_bounded:
  "0 \<le> deletedFiles (final (deleteFilesInnerAsync P pathsToDelete w)) \<and>
   deletedFiles (final (deleteFilesInnerAsync P pathsToDelete w))
     \<le> int (length (filesToDelete pathsToDelete)) \<and>
   0 \<le> deletedFolders (final (deleteFilesInnerAsync P pathsToDelete w)) \<and>
   deletedFolders (final (deleteFilesInnerAsync P pathsToDelete w))
     \<le> int (length (foldersToDelete pathsToDelete))"
proof -
  let ?s0 = "\<lparr>deletedFiles = 0, deletedFolders = 0, world = w\<rparr>"
  let ?fs = "filesToDelete pathsToDelete"
  let ?ds = "foldersToDelete pathsToDelete"
  note f = forEach_files_counters [of ?s0 ?fs P "maxParallelism w"]
  show ?thesis
  proof (cases "forEachAsync ?fs (deleteOneFile P) (maxParallelism w) ?s0")
    case (Threw e s)
    with f show ?thesis by (simp add: deleteFilesInnerAsync_def)
  next
    case (Done s1)
    note d = forEach_folders_counters [of s1 ?ds P "maxParallelism w"]
    show ?thesis
    proof (cases "forEachAsync ?ds (deleteOneFolder P) (maxParallelism w) s1")
      case (Threw e s)
      with f d Done show ?thesis by (simp add: deleteFilesInnerAsync_def)
    next
      case inner: (Done s2)
      with f d Done show ?thesis by (simp add: deleteFilesInnerAsync_def report_counters)
    qed
  qed
qed

subsection \<open>Evaluation\<close>

lemmas model_defs =
  deleteFilesInnerAsync_def deleteOneFile_def deleteOneFolder_def deleteFileAsync_def
  deleteFolderAsync_def report_def writeLine_def writeVerboseLine_def isNotExistError_def

lemmas example_defs =
  example_platform_def spec_platform_def spec_unlinkFile_def spec_removeFolder_def
  spec_selectPaths_def inside_def proj_world_def proj_disk_def locked_world_def
  nested_world_def

lemma resolveOperation_unfold:
  "resolveOperation P root r (res, w) =
     (case selectPaths P (normalizeSpec P root (heap w r)) True (disk w) of
        Inl e \<Rightarrow> Threw e (res, w\<lparr>heap := (heap w)(r := normalizeSpec P root (heap w r))\<rparr>)
      | Inr sp \<Rightarrow>
          Done (fold addSourcePath sp res,
                w\<lparr>heap := (heap w)(r := normalizeSpec P root (heap w r))\<rparr>))"
  by (simp add: resolveOperation_def normalizeFileSelectionSpecifier_def
      getFileSelectionSpecifierPathsAsync_def Let_def)

lemmas resolver_defs =
  getPathsToDeleteAsync_def resolveOperation_unfold addSourcePath_def Set_add_def
  subtree_glob_def resolve_pattern_def

lemma toString_small: "toString 0 = ''0''" "toString 1 = ''1''" "toString 2 = ''2''"
  by (simp_all add: toString_def digits.simps)

lemma summary_2_1: "summaryLine 2 1 = ''Deleted 2 files and 1 folder''"
  by (simp add: summaryLine_def toString_small)

lemma summary_0_1: "summaryLine 0 1 = ''Deleted 0 files and 1 folder''"
  by (simp add: summaryLine_def toString_small)

lemma summary_0_2: "summaryLine 0 2 = ''Deleted 0 files and 2 folders''"
  by (simp add: summaryLine_def toString_small)

subsection \<open>The deletion requests of a run\<close>


lemma deleteOneFile_calls:
  "calls (world (final (deleteOneFile P p s))) = calls (world s) @ [DeleteFile p]"
  by (simp add: deleteOneFile_def deleteFileAsync_def writeVerboseLine_def Let_def
      split: sum.split)

lemma deleteOneFolder_calls:
  "calls (world (final (deleteOneFolder P p s))) = calls (world s) @ [DeleteFolder p]"
  by (simp add: deleteOneFolder_def deleteFolderAsync_def writeVerboseLine_def Let_def
      split: sum.split)

lemma settle_files_calls:
  "calls (world (settle xs (deleteOneFile P) s)) = calls (world s) @ map DeleteFile xs"
proof (induction xs arbitrary: s)
  case Nil
  show ?case by simp
next
  case (Cons x xs)
  from Cons.IH [of "final (deleteOneFile P x s)"] deleteOneFile_calls [of P x s]
  show ?case by simp
qed

lemma settle_folders_calls:
  "calls (world (settle xs (deleteOneFolder P) s)) = calls (world s) @ map DeleteFolder xs"
proof (induction xs arbitrary: s)
  case Nil
  show ?case by simp
next
  case (Cons x xs)
  from Cons.IH [of "final (deleteOneFolder P x s)"] deleteOneFolder_calls [of P x s]
  show ?case by simp
qed

lemma forEach_files_calls:
  "\<exists>fs. prefix fs xs \<and>
     calls (world (final (forEachAsync xs (deleteOneFile P) c s))) =
       calls (world s) @ map DeleteFile fs \<and>
     (\<forall>s'. forEachAsync xs (deleteOneFile P) c s = Done s' \<longrightarrow> fs = xs)"
  using forEachAsync_final [of xs "deleteOneFile P" c s]
  by (auto simp: settle_files_calls)

lemma forEach_folders_calls:
  "\<exists>ds. prefix ds xs \<and> prefix (take 1 xs) ds \<and>
     calls (world (final (forEachAsync xs (deleteOneFolder P) c s))) =
       calls (world s) @ map DeleteFolder ds"
  using forEachAsync_final [of xs "deleteOneFolder P" c s]
  by (auto simp: settle_folders_calls)

lemma report_calls: "calls (world (report s)) = calls (world s)"
  by (simp add: report_def writeLine_def)

text \<open>An error that leaves the deleter is never the missing-target condition.\<close>

lemma deleteOneFile_Threw:
  "deleteOneFile P p s = Threw e s' \<Longrightarrow> \<not> isNotExistError e"
  by (auto simp: deleteOneFile_def split: outcome.splits if_splits)

lemma deleteOneFolder_Threw:
  "deleteOneFolder P p s = Threw e s' \<Longrightarrow> \<not> isNotExistError e"
  by (auto simp: deleteOneFolder_def split: outcome.splits if_splits)

lemma forEach_files_Threw:
  "forEachAsync xs (deleteOneFile P) c s = Threw e s' \<Longrightarrow> \<not> isNotExistError e"
  by (rule forEachAsync_Threw [where callback = "deleteOneFile P"]) (rule deleteOneFile_Threw)

lemma forEach_folders_Threw:
  "forEachAsync xs (deleteOneFolder P) c s = Threw e s' \<Longrightarrow> \<not> isNotExistError e"
  by (rule forEachAsync_Threw [where callback = "deleteOneFolder P"]) (rule deleteOneFolder_Threw)

lemma deleteFilesInnerAsync_Threw:
  assumes "deleteFilesInnerAsync P pathsToDelete w = Threw e s"
  shows "\<not> isNotExistError e"
  using assms
  by (auto simp: deleteFilesInnerAsync_def split: outcome.splits
      dest: forEach_files_Threw forEach_folders_Threw)

subsection \<open>The scenario of the specification\<close>

text \<open>
  C1. The disk holds the folder \<^verbatim>\<open>/proj/build\<close> and in it the files \<^verbatim>\<open>a.txt\<close> and
  \<^verbatim>\<open>b.txt\<close>, and nothing refuses a removal. Given the two files and the folder, the
  deleter is fulfilled with two files and one folder counted and prints exactly the line
  \<^verbatim>\<open>Deleted 2 files and 1 folder\<close>, in whichever order the two files are removed.
\<close>

theorem scenario_two_files_one_folder:
  "(case deleteFilesInnerAsync example_platform
           \<lparr>filesToDelete = [''/proj/build/a.txt'', ''/proj/build/b.txt''],
            foldersToDelete = [''/proj/build'']\<rparr> proj_world of
      Done s \<Rightarrow> deletedFiles s = 2 \<and> deletedFolders s = 1 \<and>
        printed (terminal (world s)) = [''Deleted 2 files and 1 folder'']
    | Threw e s \<Rightarrow> False) \<and>
   (case deleteFilesInnerAsync example_platform
           \<lparr>filesToDelete = [''/proj/build/b.txt'', ''/proj/build/a.txt''],
            foldersToDelete = [''/proj/build'']\<rparr> proj_world of
      Done s \<Rightarrow> deletedFiles s = 2 \<and> deletedFolders s = 1 \<and>
        printed (terminal (world s)) = [''Deleted 2 files and 1 folder'']
    | Threw e s \<Rightarrow> False)"
  by (simp add: model_defs example_defs summary_2_1)

subsection \<open>Missing targets\<close>

text \<open>
  On every platform, when a deletion primitive raises an error that \<^verbatim>\<open>isNotExistError\<close>
  recognises, the item's callback is fulfilled and leaves the counters, the disk and the
  terminal as they were; only the request is on record.
\<close>

lemma raised_missing_target_absorbed:
  "(unlinkFile P p True (disk (world s)) = Inl e \<and> isNotExistError e \<longrightarrow>
      deleteOneFile P p s =
        Done (s\<lparr>world := (world s)\<lparr>calls := calls (world s) @ [DeleteFile p]\<rparr>\<rparr>)) \<and>
   (removeFolder P p (disk (world s)) = Inl e \<and> isNotExistError e \<longrightarrow>
      deleteOneFolder P p s =
        Done (s\<lparr>world := (world s)\<lparr>calls := calls (world s) @ [DeleteFolder p]\<rparr>\<rparr>))"
  by (simp add: deleteOneFile_def deleteOneFolder_def deleteFileAsync_def
      deleteFolderAsync_def)

text \<open>
  A file that is missing when its turn comes raises such an error, because line 91 asks
  for it, and is not counted.
\<close>

lemma missing_file_not_counted:
  assumes "p \<notin> set (paths (disk (world s)))"
  shows "deleteOneFile (spec_platform glob normalise) p s =
    Done (s\<lparr>world := (world s)\<lparr>calls := calls (world s) @ [DeleteFile p]\<rparr>\<rparr>)"
  using assms
  by (simp add: deleteOneFile_def deleteFileAsync_def spec_platform_def spec_unlinkFile_def
      isNotExistError_def)

text \<open>
  C2 fails for folders. Line 110 asks nothing of the kind of the folder primitive, so for
  a folder that is missing when its turn comes the call is fulfilled, nothing is thrown
  for the handler of lines 113 to 118 to ignore, and the folder is reported and counted
  as deleted. With \<^verbatim>\<open>/proj/gone\<close> absent from the disk, the callback writes
  \<^verbatim>\<open>Deleted folder "/proj/gone".\<close> and increments \<^verbatim>\<open>deletedFolders\<close>, and the deleter
  prints \<^verbatim>\<open>Deleted 0 files and 1 folder\<close> over an unchanged disk; asked for as a file, the
  same path is absorbed and not counted. The same happens in a run of the entry point
  over a folder and a folder inside it, when the outer one is removed first: both are
  counted, the inner one after it has gone.
\<close>

theorem missing_folder_is_counted:
  "''/proj/gone'' \<notin> set (paths (disk proj_world)) \<and>
   deleteOneFolder example_platform ''/proj/gone''
     \<lparr>deletedFiles = 0, deletedFolders = 0, world = proj_world\<rparr> =
     Done \<lparr>deletedFiles = 0, deletedFolders = 1,
           world = proj_world
             \<lparr>terminal := [VerboseLine (''Deleted folder '' @ quoted ''/proj/gone'' @ ''.'')],
              calls := [DeleteFolder ''/proj/gone'']\<rparr>\<rparr> \<and>
   (case deleteFilesInnerAsync example_platform
           \<lparr>filesToDelete = [], foldersToDelete = [''/proj/gone'']\<rparr> proj_world of
      Done s \<Rightarrow> deletedFiles s = 0 \<and> deletedFolders s = 1 \<and>
        printed (terminal (world s)) = [''Deleted 0 files and 1 folder''] \<and>
        disk (world s) = disk proj_world
    | Threw e s \<Rightarrow> False) \<and>
   deleteOneFile example_platform ''/proj/gone''
     \<lparr>deletedFiles = 0, deletedFolders = 0, world = proj_world\<rparr> =
     Done \<lparr>deletedFiles = 0, deletedFolders = 0,
           world = proj_world\<lparr>calls := [DeleteFile ''/proj/gone'']\<rparr>\<rparr> \<and>
   (case deleteFilesAsync example_platform ''/proj'' [0] nested_world of
      Done w \<Rightarrow>
        calls w = [DeleteFolder ''/proj/build'', DeleteFolder ''/proj/build/sub''] \<and>
        printed (terminal w) = [''Deleted 0 files and 2 folders'']
    | Threw e w \<Rightarrow> False) \<and>
   removeFolder example_platform ''/proj/build'' (disk nested_world) =
     Inr ((disk nested_world)\<lparr>paths := []\<rparr>)"
  by (simp add: deleteFilesAsync_def resolver_defs model_defs example_defs summary_0_1
      summary_0_2)

subsection \<open>The two phases\<close>

text \<open>
  C3. An item's deletion is one step of the model, so a deletion that has been requested
  has also completed. The requests a run of the deleter makes are those for an initial
  part of the files followed by those for an initial part of the folders, and a folder is
  requested only if every file has been: no folder deletion starts before the file phase
  is complete, whether the run is fulfilled or rejected.
\<close>

theorem files_before_folders:
  "\<exists>fs ds.
     calls (world (final (deleteFilesInnerAsync P pathsToDelete w))) =
       calls w @ map DeleteFile fs @ map DeleteFolder ds \<and>
     prefix fs (filesToDelete pathsToDelete) \<and>
     prefix ds (foldersToDelete pathsToDelete) \<and>
     (ds = [] \<or> fs = filesToDelete pathsToDelete)"
proof -
  let ?s0 = "\<lparr>deletedFiles = 0, deletedFolders = 0, world = w\<rparr>"
  let ?files = "filesToDelete pathsToDelete"
  let ?folders = "foldersToDelete pathsToDelete"
  from forEach_files_calls [of ?files P "maxParallelism w" ?s0] obtain fs where fs:
    "prefix fs ?files"
    "calls (world (final (forEachAsync ?files (deleteOneFile P) (maxParallelism w) ?s0))) =
       calls w @ map DeleteFile fs"
    "\<forall>s'. forEachAsync ?files (deleteOneFile P) (maxParallelism w) ?s0 = Done s' \<longrightarrow> fs = ?files"
    by auto
  show ?thesis
  proof (cases "forEachAsync ?files (deleteOneFile P) (maxParallelism w) ?s0")
    case (Threw e s)
    with fs have "calls (world (final (deleteFilesInnerAsync P pathsToDelete w))) =
        calls w @ map DeleteFile fs @ map DeleteFolder []"
      by (simp add: deleteFilesInnerAsync_def)
    with fs(1) show ?thesis
      by (intro exI [of _ fs] exI [of _ "[]"]) simp
  next
    case (Done s1)
    with fs have all: "fs = ?files" and s1: "calls (world s1) = calls w @ map DeleteFile fs"
      by simp_all
    from forEach_folders_calls [of ?folders P "maxParallelism w" s1] obtain ds where ds:
      "prefix ds ?folders"
      "calls (world (final (forEachAsync ?folders (deleteOneFolder P) (maxParallelism w) s1))) =
         calls (world s1) @ map DeleteFolder ds"
      by blast
    have "calls (world (final (deleteFilesInnerAsync P pathsToDelete w))) =
        calls (world (final (forEachAsync ?folders (deleteOneFolder P) (maxParallelism w) s1)))"
      using Done
      by (cases "forEachAsync ?folders (deleteOneFolder P) (maxParallelism w) s1")
        (simp_all add: deleteFilesInnerAsync_def report_calls)
    with ds s1 have "calls (world (final (deleteFilesInnerAsync P pathsToDelete w))) =
        calls w @ map DeleteFile fs @ map DeleteFolder ds"
      by simp
    with fs(1) ds(1) all show ?thesis
      by (intro exI [of _ fs] exI [of _ ds]) simp
  qed
qed




text \<open>
  A hard error does not stop the file deletions that are already in flight: with a
  second file after the protected one, the run is rejected with the permission error,
  the second file has been deleted all the same, and the folder has not been asked for.
\<close>

lemma file_in_flight_is_deleted:
  "deleteFilesInnerAsync example_platform
     \<lparr>filesToDelete = [''/proj/locked.txt'', ''/proj/other.txt''],
      foldersToDelete = [''/proj/empty'']\<rparr>
     (locked_world\<lparr>disk := (disk locked_world)
        \<lparr>paths := [''/proj/locked.txt'', ''/proj/other.txt'', ''/proj/empty'']\<rparr>\<rparr>) =
   Threw (DeletionError ''EPERM'')
     \<lparr>deletedFiles = 1, deletedFolders = 0,
      world = locked_world
        \<lparr>disk := (disk locked_world)\<lparr>paths := [''/proj/locked.txt'', ''/proj/empty'']\<rparr>,
         terminal := [VerboseLine (''Deleted '' @ quoted ''/proj/other.txt'' @ ''.'')],
         calls := [DeleteFile ''/proj/locked.txt'', DeleteFile ''/proj/other.txt'']\<rparr>\<rparr>"
  by (simp add: model_defs example_defs)

subsection \<open>The summary line\<close>

text \<open>
  C7. For counters that are not negative, as those of every deletion outcome are, the
  reporter prints nothing when both are zero and otherwise exactly one line,
  \<^verbatim>\<open>Deleted\<close>, the count of files with its noun, \<^verbatim>\<open>and\<close>, the count of folders with
  its noun, each noun in the singular for a count of one and in the plural otherwise. It
  leaves the counters alone.
\<close>

theorem report_wording:
  assumes "0 \<le> deletedFiles s" and "0 \<le> deletedFolders s"
  shows "terminal (world (report s)) =
           terminal (world s) @
           (if deletedFiles s = 0 \<and> deletedFolders s = 0 then []
            else [Line (''Deleted '' @ spec_counted (deletedFiles s) ''file'' @ '' and '' @
                        spec_counted (deletedFolders s) ''folder'')]) \<and>
         deletedFiles (report s) = deletedFiles s \<and>
         deletedFolders (report s) = deletedFolders s"
  using assms
  by (auto simp: report_def writeLine_def summaryLine_def spec_counted_def)

theorem report_wording_witness:
  "terminal (world (report \<lparr>deletedFiles = 1, deletedFolders = 2, world = proj_world\<rparr>)) =
     [Line ''Deleted 1 file and 2 folders''] \<and>
   terminal (world (report \<lparr>deletedFiles = 0, deletedFolders = 1, world = proj_world\<rparr>)) =
     [Line ''Deleted 0 files and 1 folder''] \<and>
   terminal (world (report \<lparr>deletedFiles = 0, deletedFolders = 0, world = proj_world\<rparr>)) = []"
  using report_wording [of "\<lparr>deletedFiles = 1, deletedFolders = 2, world = proj_world\<rparr>"]
    report_wording [of "\<lparr>deletedFiles = 0, deletedFolders = 1, world = proj_world\<rparr>"]
    report_wording [of "\<lparr>deletedFiles = 0, deletedFolders = 0, world = proj_world\<rparr>"]
  by (simp add: spec_counted_def toString_small proj_world_def)

subsection \<open>The resolver\<close>

lemma files_addSourcePath:
  "set (filesToDelete (addSourcePath (q, d) res)) =
     (if isDirectory d then set (filesToDelete res) else insert q (set (filesToDelete res)))"
  by (simp add: addSourcePath_def Set_add_def insert_absorb)

lemma folders_addSourcePath:
  "set (foldersToDelete (addSourcePath (q, d) res)) =
     (if isDirectory d then insert q (set (foldersToDelete res)) else set (foldersToDelete res))"
  by (simp add: addSourcePath_def Set_add_def insert_absorb)

lemma distinct_addSourcePath:
  "distinct (filesToDelete res) \<and> distinct (foldersToDelete res) \<Longrightarrow>
   distinct (filesToDelete (addSourcePath e res)) \<and>
   distinct (foldersToDelete (addSourcePath e res))"
  by (cases e) (simp add: addSourcePath_def Set_add_def)

lemma in_files_fold_addSourcePath:
  "p \<in> set (filesToDelete (fold addSourcePath sp res)) \<longleftrightarrow>
     p \<in> set (filesToDelete res) \<or> (\<exists>d. (p, d) \<in> set sp \<and> \<not> isDirectory d)"
proof (induction sp arbitrary: res)
  case Nil
  show ?case by simp
next
  case (Cons e sp)
  obtain q d where e: "e = (q, d)" by (cases e)
  show ?case
    by (cases "isDirectory d") (auto simp: Cons.IH e files_addSourcePath)
qed

lemma in_folders_fold_addSourcePath:
  "p \<in> set (foldersToDelete (fold addSourcePath sp res)) \<longleftrightarrow>
     p \<in> set (foldersToDelete res) \<or> (\<exists>d. (p, d) \<in> set sp \<and> isDirectory d)"
proof (induction sp arbitrary: res)
  case Nil
  show ?case by simp
next
  case (Cons e sp)
  obtain q d where e: "e = (q, d)" by (cases e)
  show ?case
    by (cases "isDirectory d") (auto simp: Cons.IH e folders_addSourcePath)
qed

lemma distinct_fold_addSourcePath:
  "distinct (filesToDelete res) \<and> distinct (foldersToDelete res) \<Longrightarrow>
   distinct (filesToDelete (fold addSourcePath sp res)) \<and>
   distinct (foldersToDelete (fold addSourcePath sp res))"
proof (induction sp arbitrary: res)
  case Nil
  then show ?case by simp
next
  case (Cons e sp)
  from Cons.IH [OF distinct_addSourcePath [OF Cons.prems, of e]] show ?case by simp
qed

text \<open>Resolution touches nothing but the operation objects.\<close>

lemma resolveOperation_frame:
  "disk (snd (final (resolveOperation P root r st))) = disk (snd st) \<and>
   terminal (snd (final (resolveOperation P root r st))) = terminal (snd st) \<and>
   calls (snd (final (resolveOperation P root r st))) = calls (snd st)"
  by (cases st) (simp add: resolveOperation_unfold split: sum.split)

lemma forEach_resolve_frame:
  "disk (snd (final (forEachAsync rs (resolveOperation P root) c st))) = disk (snd st) \<and>
   terminal (snd (final (forEachAsync rs (resolveOperation P root) c st))) = terminal (snd st) \<and>
   calls (snd (final (forEachAsync rs (resolveOperation P root) c st))) = calls (snd st)"
  by (rule forEachAsync_invariant
      [where I = "\<lambda>s. disk (snd s) = disk (snd st) \<and> terminal (snd s) = terminal (snd st) \<and>
                     calls (snd s) = calls (snd st)"])
    (simp_all add: resolveOperation_frame)

lemma forEach_resolve_distinct:
  assumes "distinct (filesToDelete (fst st)) \<and> distinct (foldersToDelete (fst st))"
  shows "distinct (filesToDelete (fst (final (forEachAsync rs (resolveOperation P root) c st)))) \<and>
         distinct (foldersToDelete (fst (final (forEachAsync rs (resolveOperation P root) c st))))"
proof (rule forEachAsync_invariant
    [where I = "\<lambda>s. distinct (filesToDelete (fst s)) \<and> distinct (foldersToDelete (fst s))"])
  fix r and s :: "IGetPathsToDeleteResult \<times> ('a, 'b) world"
  assume "distinct (filesToDelete (fst s)) \<and> distinct (foldersToDelete (fst s))"
  then show "distinct (filesToDelete (fst (final (resolveOperation P root r s)))) \<and>
             distinct (foldersToDelete (fst (final (resolveOperation P root r s))))"
    by (cases s) (simp add: resolveOperation_unfold distinct_fold_addSourcePath split: sum.split)
qed (rule assms)

text \<open>Every occurrence of an operation in the list normalises its object once more.\<close>

lemma forEach_resolve_heap:
  assumes "forEachAsync rs (resolveOperation P root) c (res, w) = Done (res', w')"
  shows "heap w' = (\<lambda>r. (normalizeSpec P root ^^ count_list rs r) (heap w r))"
  using assms
proof (induction rs arbitrary: res w)
  case Nil
  then show ?case by simp
next
  case (Cons r rs)
  let ?w1 = "w\<lparr>heap := (heap w)(r := normalizeSpec P root (heap w r))\<rparr>"
  from Cons.prems obtain res1 where
    rest: "forEachAsync rs (resolveOperation P root) c (res1, ?w1) = Done (res', w')"
    by (auto simp: resolveOperation_unfold split: sum.splits)
  from Cons.IH [OF rest]
  have "heap w' = (\<lambda>q. (normalizeSpec P root ^^ count_list rs q) (heap ?w1 q))" .
  then show ?case
    by (auto simp: fun_eq_iff funpow_swap1)
qed

text \<open>The order in which the operations are resolved.\<close>

lemma merge_selection_apply:
  "merge_selection P root d r (h, F, D, ok) =
     (case selectPaths P (normalizeSpec P root (h r)) True d of
        Inl e \<Rightarrow> (h(r := normalizeSpec P root (h r)), F, D, False)
      | Inr sp \<Rightarrow>
          (h(r := normalizeSpec P root (h r)),
           F \<union> {p. \<exists>e. (p, e) \<in> set sp \<and> \<not> isDirectory e},
           D \<union> {p. \<exists>e. (p, e) \<in> set sp \<and> isDirectory e},
           ok))"
  by (simp add: merge_selection_def)

lemma merge_selection_commute:
  "merge_selection P root d r \<circ> merge_selection P root d q =
   merge_selection P root d q \<circ> merge_selection P root d r"
proof (cases "r = q")
  case True
  then show ?thesis by simp
next
  case False
  show ?thesis
  proof (rule ext)
    fix a
    show "(merge_selection P root d r \<circ> merge_selection P root d q) a =
        (merge_selection P root d q \<circ> merge_selection P root d r) a"
    proof (cases a)
      case (fields h F D ok)
      from False have neq: "r \<noteq> q" "q \<noteq> r" by simp_all
      have twist: "h(q := x, r := y) = h(r := y, q := x)" for x y
        using neq by (simp add: fun_eq_iff)
      show ?thesis
        unfolding fields o_apply
        by (cases "selectPaths P (normalizeSpec P root (h q)) True d";
            cases "selectPaths P (normalizeSpec P root (h r)) True d")
          (auto simp: merge_selection_apply neq twist)
    qed
  qed
qed

lemma merge_selection_failed:
  "snd (snd (snd (fold (merge_selection P root d) rs (h, F, D, False)))) = False"
proof (induction rs arbitrary: h F D)
  case Nil
  show ?case by simp
next
  case (Cons r rs)
  then show ?case
    by (cases "selectPaths P (normalizeSpec P root (h r)) True d")
      (simp_all add: merge_selection_apply)
qed

lemma forEach_resolve_Done_merge:
  assumes "forEachAsync rs (resolveOperation P root) c (res, w) = Done (res', w')"
  shows "fold (merge_selection P root (disk w)) rs
           (heap w, set (filesToDelete res), set (foldersToDelete res), True) =
         (heap w', set (filesToDelete res'), set (foldersToDelete res'), True)"
  using assms
proof (induction rs arbitrary: res w)
  case Nil
  then show ?case by simp
next
  case (Cons r rs)
  let ?w1 = "w\<lparr>heap := (heap w)(r := normalizeSpec P root (heap w r))\<rparr>"
  from Cons.prems obtain sp where
    sp: "selectPaths P (normalizeSpec P root (heap w r)) True (disk w) = Inr sp" and
    rest: "forEachAsync rs (resolveOperation P root) c (fold addSourcePath sp res, ?w1) =
      Done (res', w')"
    by (auto simp: resolveOperation_unfold split: sum.splits)
  have files: "set (filesToDelete (fold addSourcePath sp res)) =
      set (filesToDelete res) \<union> {p. \<exists>e. (p, e) \<in> set sp \<and> \<not> isDirectory e}"
    by (auto simp: in_files_fold_addSourcePath)
  have folders: "set (foldersToDelete (fold addSourcePath sp res)) =
      set (foldersToDelete res) \<union> {p. \<exists>e. (p, e) \<in> set sp \<and> isDirectory e}"
    by (auto simp: in_folders_fold_addSourcePath)
  have step: "merge_selection P root (disk w) r
      (heap w, set (filesToDelete res), set (foldersToDelete res), True) =
      (heap ?w1, set (filesToDelete (fold addSourcePath sp res)),
       set (foldersToDelete (fold addSourcePath sp res)), True)"
    by (simp add: merge_selection_apply sp files folders)
  have "fold (merge_selection P root (disk w)) (r # rs)
      (heap w, set (filesToDelete res), set (foldersToDelete res), True) =
      fold (merge_selection P root (disk ?w1)) rs
        (heap ?w1, set (filesToDelete (fold addSourcePath sp res)),
         set (foldersToDelete (fold addSourcePath sp res)), True)"
    by (simp add: step)
  also note Cons.IH [OF rest]
  finally show ?case .
qed

lemma forEach_resolve_Threw_merge:
  assumes "forEachAsync rs (resolveOperation P root) c (res, w) = Threw e st"
  shows "snd (snd (snd (fold (merge_selection P root (disk w)) rs (heap w, F, D, True)))) = False"
  using assms
proof (induction rs arbitrary: res w F D)
  case Nil
  then show ?case by simp
next
  case (Cons r rs)
  let ?w1 = "w\<lparr>heap := (heap w)(r := normalizeSpec P root (heap w r))\<rparr>"
  show ?case
  proof (cases "selectPaths P (normalizeSpec P root (heap w r)) True (disk w)")
    case (Inl err)
    then show ?thesis
      by (simp add: merge_selection_apply merge_selection_failed)
  next
    case (Inr sp)
    with Cons.prems
    have rest: "forEachAsync rs (resolveOperation P root) c (fold addSourcePath sp res, ?w1) =
        Threw e st"
      by (simp add: resolveOperation_unfold)
    let ?F = "F \<union> {p. \<exists>e. (p, e) \<in> set sp \<and> \<not> isDirectory e}"
    let ?D = "D \<union> {p. \<exists>e. (p, e) \<in> set sp \<and> isDirectory e}"
    have "fold (merge_selection P root (disk w)) (r # rs) (heap w, F, D, True) =
        fold (merge_selection P root (disk ?w1)) rs (heap ?w1, ?F, ?D, True)"
      by (simp add: merge_selection_apply Inr)
    with Cons.IH [OF rest, of ?F ?D] show ?thesis
      by (simp only:)
  qed
qed

lemma forEach_resolve_permuted:
  assumes run: "forEachAsync rs (resolveOperation P root) c (res, w) = Done (res', w')"
    and perm: "mset rs' = mset rs"
  shows "\<exists>res'' w''. forEachAsync rs' (resolveOperation P root) c (res, w) = Done (res'', w'') \<and>
           set (filesToDelete res'') = set (filesToDelete res') \<and>
           set (foldersToDelete res'') = set (foldersToDelete res') \<and> heap w'' = heap w'"
proof -
  let ?init = "(heap w, set (filesToDelete res), set (foldersToDelete res), True)"
  have same: "fold (merge_selection P root (disk w)) rs' ?init =
      fold (merge_selection P root (disk w)) rs ?init"
    by (rule arg_cong [where f = "\<lambda>f. f ?init"])
      (rule fold_multiset_equiv [OF merge_selection_commute perm])
  note merged = forEach_resolve_Done_merge [OF run]
  show ?thesis
  proof (cases "forEachAsync rs' (resolveOperation P root) c (res, w)")
    case (Threw e st)
    from forEach_resolve_Threw_merge
      [OF Threw, of "set (filesToDelete res)" "set (foldersToDelete res)"]
    have "snd (snd (snd (fold (merge_selection P root (disk w)) rs' ?init))) = False" .
    with same merged show ?thesis
      by simp
  next
    case (Done st)
    obtain res'' w'' where st: "st = (res'', w'')" by (cases st)
    from forEach_resolve_Done_merge [OF Done [unfolded st]] same merged Done st
    show ?thesis by simp
  qed
qed

lemma forEach_resolve_grows:
  "set (filesToDelete (fst st)) \<subseteq>
     set (filesToDelete (fst (final (forEachAsync rs (resolveOperation P root) c st)))) \<and>
   set (foldersToDelete (fst st)) \<subseteq>
     set (foldersToDelete (fst (final (forEachAsync rs (resolveOperation P root) c st))))"
proof (rule forEachAsync_invariant
    [where I = "\<lambda>s. set (filesToDelete (fst st)) \<subseteq> set (filesToDelete (fst s)) \<and>
                  set (foldersToDelete (fst st)) \<subseteq> set (foldersToDelete (fst s))"])
  fix r and s :: "IGetPathsToDeleteResult \<times> ('a, 'b) world"
  assume "set (filesToDelete (fst st)) \<subseteq> set (filesToDelete (fst s)) \<and>
          set (foldersToDelete (fst st)) \<subseteq> set (foldersToDelete (fst s))"
  then show "set (filesToDelete (fst st)) \<subseteq>
               set (filesToDelete (fst (final (resolveOperation P root r s)))) \<and>
             set (foldersToDelete (fst st)) \<subseteq>
               set (foldersToDelete (fst (final (resolveOperation P root r s))))"
    by (cases s)
      (auto simp: resolveOperation_unfold in_files_fold_addSourcePath
        in_folders_fold_addSourcePath split: sum.split)
qed simp

lemma forEach_resolve_selected:
  assumes "forEachAsync rs (resolveOperation P root) c (res, w) = Done (res', w')"
    and "r \<in> set rs"
  shows "\<exists>sp. selectPaths P (heap w' r) True (disk w) = Inr sp \<and>
           (\<forall>p e. (p, e) \<in> set sp \<longrightarrow>
              (if isDirectory e then p \<in> set (foldersToDelete res')
               else p \<in> set (filesToDelete res')))"
  using assms
proof (induction rs arbitrary: res w)
  case Nil
  then show ?case by simp
next
  case (Cons q rs)
  let ?w1 = "w\<lparr>heap := (heap w)(q := normalizeSpec P root (heap w q))\<rparr>"
  from Cons.prems(1) obtain sp where
    sp: "selectPaths P (normalizeSpec P root (heap w q)) True (disk w) = Inr sp" and
    rest: "forEachAsync rs (resolveOperation P root) c (fold addSourcePath sp res, ?w1) =
      Done (res', w')"
    by (auto simp: resolveOperation_unfold split: sum.splits)
  show ?case
  proof (cases "r \<in> set rs")
    case True
    from Cons.IH [OF rest True] show ?thesis by simp
  next
    case False
    with Cons.prems(2) have rq: "r = q" by simp
    from forEach_resolve_heap [OF rest] False rq
    have "heap w' r = normalizeSpec P root (heap w q)" by simp
    with sp have selected: "selectPaths P (heap w' r) True (disk w) = Inr sp" by simp
    from forEach_resolve_grows [of "(fold addSourcePath sp res, ?w1)" rs P root c] rest
    have grows: "set (filesToDelete (fold addSourcePath sp res)) \<subseteq> set (filesToDelete res')"
      "set (foldersToDelete (fold addSourcePath sp res)) \<subseteq> set (foldersToDelete res')"
      by simp_all
    have "(if isDirectory e then p \<in> set (foldersToDelete res')
           else p \<in> set (filesToDelete res'))" if "(p, e) \<in> set sp" for p e
      using that grows
      by (auto simp: subset_iff in_files_fold_addSourcePath in_folders_fold_addSourcePath)
    with selected show ?thesis by blast
  qed
qed

text \<open>
  On the concrete platform a path is filed by the kind of its entry on
  the disk.
\<close>

lemma forEach_resolve_kinds:
  assumes "\<forall>p. p \<in> set (foldersToDelete (fst st)) \<longrightarrow> isDirectory (dirent_of (disk (snd st)) p)"
    and "\<forall>p. p \<in> set (filesToDelete (fst st)) \<longrightarrow> \<not> isDirectory (dirent_of (disk (snd st)) p)"
  shows "(\<forall>p. p \<in> set (foldersToDelete (fst (final (forEachAsync rs
              (resolveOperation (spec_platform glob normalise) root) c st)))) \<longrightarrow>
            isDirectory (dirent_of (disk (snd st)) p)) \<and>
         (\<forall>p. p \<in> set (filesToDelete (fst (final (forEachAsync rs
              (resolveOperation (spec_platform glob normalise) root) c st)))) \<longrightarrow>
            \<not> isDirectory (dirent_of (disk (snd st)) p))"
proof -
  let ?I = "\<lambda>s. disk (snd s) = disk (snd st) \<and>
    (\<forall>p. p \<in> set (foldersToDelete (fst s)) \<longrightarrow> isDirectory (dirent_of (disk (snd st)) p)) \<and>
    (\<forall>p. p \<in> set (filesToDelete (fst s)) \<longrightarrow> \<not> isDirectory (dirent_of (disk (snd st)) p))"
  have "?I (final (forEachAsync rs (resolveOperation (spec_platform glob normalise) root) c st))"
  proof (rule forEachAsync_invariant [where I = ?I])
    fix r and s :: "IGetPathsToDeleteResult \<times> (filesystem, 'a) world"
    assume "?I s"
    then show "?I (final (resolveOperation (spec_platform glob normalise) root r s))"
      by (cases s)
        (auto simp: resolveOperation_unfold in_files_fold_addSourcePath
          in_folders_fold_addSourcePath spec_platform_def spec_selectPaths_def
          split: sum.split option.splits)
  next
    from assms show "?I st" by simp
  qed
  then show ?thesis by simp
qed

text \<open>
  C5. On the concrete platform, for every list of operations whose
  resolution is fulfilled: no path occurs twice in either set; no path is in both; every
  existing path that the specifier of some operation matches is in the set its kind
  decides, folders to \<^verbatim>\<open>foldersToDelete\<close> and everything else to \<^verbatim>\<open>filesToDelete\<close>; and
  resolving the operations in any other order is fulfilled as well, with the same members
  in both sets.
\<close>

theorem resolved_paths_deterministic:
  assumes "getPathsToDeleteAsync (spec_platform glob normalise) root ops w = Done (res, w')"
  shows "distinct (filesToDelete res) \<and> distinct (foldersToDelete res) \<and>
         set (filesToDelete res) \<inter> set (foldersToDelete res) = {} \<and>
         (\<forall>r p matches. r \<in> set ops \<and> glob (heap w' r) = Some matches \<and>
            p \<in> set (paths (disk w)) \<and> matches p \<longrightarrow>
            (if isDirectory (dirent_of (disk w) p) then p \<in> set (foldersToDelete res)
             else p \<in> set (filesToDelete res))) \<and>
         (\<forall>ops'. mset ops' = mset ops \<longrightarrow>
            (\<exists>res' w''.
               getPathsToDeleteAsync (spec_platform glob normalise) root ops' w =
                 Done (res', w'') \<and>
               set (filesToDelete res') = set (filesToDelete res) \<and>
               set (foldersToDelete res') = set (foldersToDelete res)))"
proof -
  let ?P = "spec_platform glob normalise"
  let ?st = "(\<lparr>filesToDelete = [], foldersToDelete = []\<rparr>, w)"
  from assms have run: "forEachAsync ops (resolveOperation ?P root) (maxParallelism w) ?st = Done (res, w')"
    by (simp add: getPathsToDeleteAsync_def)
  from forEach_resolve_distinct [of ?st ops ?P root "maxParallelism w"] run
  have d: "distinct (filesToDelete res) \<and> distinct (foldersToDelete res)"
    by simp
  from forEach_resolve_kinds [of ?st ops glob normalise root "maxParallelism w"] run
  have kinds: "\<forall>p. p \<in> set (foldersToDelete res) \<longrightarrow> isDirectory (dirent_of (disk w) p)"
    "\<forall>p. p \<in> set (filesToDelete res) \<longrightarrow> \<not> isDirectory (dirent_of (disk w) p)"
    by simp_all
  then have disjoint: "set (filesToDelete res) \<inter> set (foldersToDelete res) = {}"
    by blast
  have selected: "if isDirectory (dirent_of (disk w) p) then p \<in> set (foldersToDelete res)
      else p \<in> set (filesToDelete res)"
    if "r \<in> set ops" "glob (heap w' r) = Some matches" "p \<in> set (paths (disk w))" "matches p"
    for r p matches
  proof -
    from forEach_resolve_selected [OF run that(1)] obtain sp where
      sp: "selectPaths ?P (heap w' r) True (disk w) = Inr sp" and
      covered: "\<forall>p e. (p, e) \<in> set sp \<longrightarrow>
        (if isDirectory e then p \<in> set (foldersToDelete res)
         else p \<in> set (filesToDelete res))"
      by blast
    from sp that(2,3,4) have "(p, dirent_of (disk w) p) \<in> set sp"
      by (auto simp: spec_platform_def spec_selectPaths_def)
    with covered show ?thesis by blast
  qed
  have permuted: "\<exists>res' w''. getPathsToDeleteAsync ?P root ops' w = Done (res', w'') \<and>
      set (filesToDelete res') = set (filesToDelete res) \<and>
      set (foldersToDelete res') = set (foldersToDelete res)"
    if "mset ops' = mset ops" for ops'
    using forEach_resolve_permuted [OF run that]
    by (auto simp: getPathsToDeleteAsync_def)
  from d disjoint selected permuted show ?thesis
    by blast
qed

lemma overlap_run:
  "getPathsToDeleteAsync example_platform ''/proj'' [0, 1] overlap_world =
     Done (\<lparr>filesToDelete = [''/proj/build/a.txt'', ''/proj/build/b.txt''],
            foldersToDelete = [''/proj/build'']\<rparr>,
           overlap_world\<lparr>heap := (\<lambda>r. ''/proj/build/**'')\<rparr>)"
  by (simp add: resolver_defs example_defs overlap_world_def fun_eq_iff)


theorem resolved_paths_deterministic_witness:
  "getPathsToDeleteAsync example_platform ''/proj'' [0, 1] overlap_world =
     Done (\<lparr>filesToDelete = [''/proj/build/a.txt'', ''/proj/build/b.txt''],
            foldersToDelete = [''/proj/build'']\<rparr>,
           overlap_world\<lparr>heap := (\<lambda>r. ''/proj/build/**'')\<rparr>) \<and>
   (\<exists>res' w''.
      getPathsToDeleteAsync example_platform ''/proj'' [1, 0] overlap_world = Done (res', w'') \<and>
      set (filesToDelete res') = {''/proj/build/a.txt'', ''/proj/build/b.txt''} \<and>
      set (foldersToDelete res') = {''/proj/build''})"
proof -
  let ?res = "\<lparr>filesToDelete = [''/proj/build/a.txt'', ''/proj/build/b.txt''],
            foldersToDelete = [''/proj/build'']\<rparr>"
  have perm: "mset [1, 0 :: nat] = mset [0, 1]" by simp
  note all = resolved_paths_deterministic [OF overlap_run [unfolded example_platform_def]]
  note permuted = all [THEN conjunct2, THEN conjunct2, THEN conjunct2, THEN conjunct2,
      THEN spec, THEN mp, OF perm, folded example_platform_def]
  then obtain res' w'' where
    run: "getPathsToDeleteAsync example_platform ''/proj'' [1, 0] overlap_world =
      Done (res', w'')" and
    files: "set (filesToDelete res') = set (filesToDelete ?res)" and
    folders: "set (foldersToDelete res') = set (foldersToDelete ?res)"
    by blast
  from files have "set (filesToDelete res') = {''/proj/build/a.txt'', ''/proj/build/b.txt''}"
    by simp
  moreover from folders have "set (foldersToDelete res') = {''/proj/build''}"
    by simp
  ultimately have "\<exists>res' w''.
      getPathsToDeleteAsync example_platform ''/proj'' [1, 0] overlap_world = Done (res', w'') \<and>
      set (filesToDelete res') = {''/proj/build/a.txt'', ''/proj/build/b.txt''} \<and>
      set (foldersToDelete res') = {''/proj/build''}"
    using run by blast
  with overlap_run show ?thesis by (simp only: simp_thms)
qed

text \<open>
  C6. Whatever its outcome, resolution leaves the disk as it was, requests no deletion and
  prints nothing; and when it is rejected, the entry point is rejected with the same
  error in that state, before anything has been deleted.
\<close>

theorem resolution_is_read_only:
  "disk (snd (final (getPathsToDeleteAsync P root ops w))) = disk w \<and>
   calls (snd (final (getPathsToDeleteAsync P root ops w))) = calls w \<and>
   terminal (snd (final (getPathsToDeleteAsync P root ops w))) = terminal w \<and>
   (getPathsToDeleteAsync P root ops w = Threw e st \<longrightarrow>
      deleteFilesAsync P root ops w = Threw e (snd st) \<and>
      disk (snd st) = disk w \<and> calls (snd st) = calls w \<and> terminal (snd st) = terminal w)"
proof -
  let ?st = "(\<lparr>filesToDelete = [], foldersToDelete = []\<rparr>, w)"
  note frame = forEach_resolve_frame [of ops P root "maxParallelism w" ?st, folded getPathsToDeleteAsync_def]
  have "deleteFilesAsync P root ops w = Threw e (snd st) \<and>
      disk (snd st) = disk w \<and> calls (snd st) = calls w \<and> terminal (snd st) = terminal w"
    if "getPathsToDeleteAsync P root ops w = Threw e st"
    using that frame by (simp add: deleteFilesAsync_def)
  with frame show ?thesis by simp
qed

theorem resolution_is_read_only_witness:
  "getPathsToDeleteAsync example_platform ''/proj'' [0, 1]
     (proj_world\<lparr>heap := (\<lambda>r. if r = 0 then ''build/**'' else ''*.log'')\<rparr>) =
     Threw (SelectionError ''cannot parse the pattern'')
       (\<lparr>filesToDelete = [''/proj/build/a.txt'', ''/proj/build/b.txt''],
          foldersToDelete = [''/proj/build'']\<rparr>,
        proj_world\<lparr>heap := (\<lambda>r. if r = 0 then ''/proj/build/**'' else if r = 1 then ''/proj/*.log'' else ''*.log'')\<rparr>) \<and>
   deleteFilesAsync example_platform ''/proj'' [0, 1]
     (proj_world\<lparr>heap := (\<lambda>r. if r = 0 then ''build/**'' else ''*.log'')\<rparr>) =
     Threw (SelectionError ''cannot parse the pattern'')
       (proj_world\<lparr>heap := (\<lambda>r. if r = 0 then ''/proj/build/**'' else if r = 1 then ''/proj/*.log'' else ''*.log'')\<rparr>)"
proof -
  let ?w = "proj_world\<lparr>heap := (\<lambda>r. if r = 0 then ''build/**'' else ''*.log'')\<rparr>"
  let ?w' = "proj_world\<lparr>heap := (\<lambda>r. if r = 0 then ''/proj/build/**'' else if r = 1 then ''/proj/*.log'' else ''*.log'')\<rparr>"
  let ?res = "\<lparr>filesToDelete = [''/proj/build/a.txt'', ''/proj/build/b.txt''],
          foldersToDelete = [''/proj/build'']\<rparr>"
  have threw: "getPathsToDeleteAsync example_platform ''/proj'' [0, 1] ?w =
      Threw (SelectionError ''cannot parse the pattern'') (?res, ?w')"
    by (simp add: resolver_defs example_defs fun_eq_iff)
  from resolution_is_read_only
    [where P = example_platform and root = "''/proj''" and ops = "[0, 1]" and w = ?w
       and e = "SelectionError ''cannot parse the pattern''" and st = "(?res, ?w')"] threw
  have "deleteFilesAsync example_platform ''/proj'' [0, 1] ?w =
      Threw (SelectionError ''cannot parse the pattern'') (snd (?res, ?w'))"
    by blast
  with threw show ?thesis by simp
qed

subsection \<open>The operation objects\<close>

lemma deleteOneFile_heap: "heap (world (final (deleteOneFile P p s))) = heap (world s)"
  by (simp add: deleteOneFile_def deleteFileAsync_def writeVerboseLine_def Let_def
      split: sum.split)

lemma deleteOneFolder_heap: "heap (world (final (deleteOneFolder P p s))) = heap (world s)"
  by (simp add: deleteOneFolder_def deleteFolderAsync_def writeVerboseLine_def Let_def
      split: sum.split)

lemma deleteFilesInnerAsync_heap:
  "heap (world (final (deleteFilesInnerAsync P pathsToDelete w))) = heap w"
proof -
  let ?s0 = "\<lparr>deletedFiles = 0, deletedFolders = 0, world = w\<rparr>"
  have files: "heap (world (final (forEachAsync xs (deleteOneFile P) (maxParallelism w) ?s0))) = heap w" for xs
    by (rule forEachAsync_invariant [where I = "\<lambda>s. heap (world s) = heap w"])
      (simp_all add: deleteOneFile_heap)
  have folders: "heap (world (final (forEachAsync xs (deleteOneFolder P) (maxParallelism w) s))) = heap w"
    if "heap (world s) = heap w" for xs s
    by (rule forEachAsync_invariant [where I = "\<lambda>s. heap (world s) = heap w"])
      (simp_all add: deleteOneFolder_heap that)
  show ?thesis
  proof (cases "forEachAsync (filesToDelete pathsToDelete) (deleteOneFile P) (maxParallelism w) ?s0")
    case (Threw e s)
    with files [of "filesToDelete pathsToDelete"] show ?thesis
      by (simp add: deleteFilesInnerAsync_def)
  next
    case (Done s1)
    with files [of "filesToDelete pathsToDelete"] have s1: "heap (world s1) = heap w"
      by simp
    from folders [OF s1, of "foldersToDelete pathsToDelete"] Done show ?thesis
      by (cases "forEachAsync (foldersToDelete pathsToDelete) (deleteOneFolder P) (maxParallelism w) s1")
        (simp_all add: deleteFilesInnerAsync_def report_def writeLine_def)
  qed
qed

text \<open>
  C9. A fulfilled resolution has normalised, in the caller's own objects, every operation
  it was given: an object is normalised once for each occurrence of its reference in the
  list (so once, when the operations are distinct objects), no other object changes, and
  the deleter changes none, so the caller finds the operations normalised when the run
  has settled.
\<close>

theorem operations_normalised_in_place:
  assumes "getPathsToDeleteAsync P root ops w = Done (res, w')"
  shows "heap w' = (\<lambda>r. (normalizeSpec P root ^^ count_list ops r) (heap w r)) \<and>
         heap (final (deleteFilesAsync P root ops w)) = heap w'"
proof -
  from assms have "forEachAsync ops (resolveOperation P root) (maxParallelism w)
      (\<lparr>filesToDelete = [], foldersToDelete = []\<rparr>, w) = Done (res, w')"
    by (simp add: getPathsToDeleteAsync_def)
  then have "heap w' = (\<lambda>r. (normalizeSpec P root ^^ count_list ops r) (heap w r))"
    by (rule forEach_resolve_heap)
  moreover have "heap (final (deleteFilesAsync P root ops w)) = heap w'"
    using assms deleteFilesInnerAsync_heap [of P res w']
    by (cases "deleteFilesInnerAsync P res w'") (simp_all add: deleteFilesAsync_def)
  ultimately show ?thesis by simp
qed

theorem operations_normalised_in_place_witness:
  "getPathsToDeleteAsync example_platform ''/proj'' [0] proj_world =
     Done (\<lparr>filesToDelete = [''/proj/build/a.txt'', ''/proj/build/b.txt''],
            foldersToDelete = [''/proj/build'']\<rparr>,
           proj_world\<lparr>heap := (\<lambda>r. if r = 0 then ''/proj/build/**'' else ''build/**'')\<rparr>) \<and>
   heap proj_world 0 = ''build/**'' \<and>
   heap (final (deleteFilesAsync example_platform ''/proj'' [0] proj_world)) 0 =
     ''/proj/build/**'' \<and>
   heap (final (deleteFilesAsync example_platform ''/proj'' [0] proj_world)) 1 = ''build/**''"
proof -
  let ?res = "\<lparr>filesToDelete = [''/proj/build/a.txt'', ''/proj/build/b.txt''],
            foldersToDelete = [''/proj/build'']\<rparr>"
  let ?w' = "proj_world\<lparr>heap := (\<lambda>r. if r = 0 then ''/proj/build/**'' else ''build/**'')\<rparr>"
  have run: "getPathsToDeleteAsync example_platform ''/proj'' [0] proj_world = Done (?res, ?w')"
    by (simp add: resolver_defs example_defs fun_eq_iff)
  note after = operations_normalised_in_place [OF run, THEN conjunct2]
  have "heap ?w' 0 = ''/proj/build/**''" "heap ?w' 1 = ''build/**''"
    "heap proj_world 0 = ''build/**''"
    by (simp_all add: proj_world_def)
  with run after show ?thesis by (simp only: simp_thms)
qed

subsection \<open>Running the pipeline twice\<close>

text \<open>
  On the concrete platform a fulfilled deletion leaves its target absent,
  and nothing is ever created.
\<close>

lemma spec_deleteOneFile_Done:
  assumes "deleteOneFile (spec_platform glob normalise) p s = Done s'"
  shows "set (paths (disk (world s'))) \<subseteq> set (paths (disk (world s))) - {p}"
  using assms
  by (auto simp: deleteOneFile_def deleteFileAsync_def writeVerboseLine_def Let_def
      spec_platform_def spec_unlinkFile_def isNotExistError_def
      split: sum.splits if_splits)

lemma spec_deleteOneFolder_Done:
  assumes "deleteOneFolder (spec_platform glob normalise) p s = Done s'"
  shows "set (paths (disk (world s'))) \<subseteq> set (paths (disk (world s))) - {p}"
  using assms
  by (auto simp: deleteOneFolder_def deleteFolderAsync_def writeVerboseLine_def Let_def
      spec_platform_def spec_removeFolder_def isNotExistError_def
      split: sum.splits if_splits)

lemma forEachAsync_removes:
  assumes step: "\<And>x s s'. callback x s = Done s' \<Longrightarrow>
      set (paths (disk (world s'))) \<subseteq> set (paths (disk (world s))) - {x}"
    and run: "forEachAsync xs callback c s = Done s'"
  shows "set (paths (disk (world s'))) \<subseteq> set (paths (disk (world s))) - set xs"
  using run
proof (induction xs arbitrary: s)
  case Nil
  then show ?case by simp
next
  case (Cons x xs)
  from Cons.prems obtain s1 where s1: "callback x s = Done s1"
    and rest: "forEachAsync xs callback c s1 = Done s'"
    by (auto split: outcome.splits)
  from step [OF s1] Cons.IH [OF rest] show ?case by auto
qed

lemma spec_deleteFilesInnerAsync_Done:
  assumes "deleteFilesInnerAsync (spec_platform glob normalise) pathsToDelete w = Done s"
  shows "set (paths (disk (world s))) \<subseteq>
           set (paths (disk w)) -
           (set (filesToDelete pathsToDelete) \<union> set (foldersToDelete pathsToDelete))"
proof -
  let ?P = "spec_platform glob normalise"
  from assms obtain s1 s2 where
    files: "forEachAsync (filesToDelete pathsToDelete) (deleteOneFile ?P) (maxParallelism w)
      \<lparr>deletedFiles = 0, deletedFolders = 0, world = w\<rparr> = Done s1" and
    folders: "forEachAsync (foldersToDelete pathsToDelete) (deleteOneFolder ?P) (maxParallelism w) s1 = Done s2" and
    s: "s = report s2"
    by (auto simp: deleteFilesInnerAsync_def split: outcome.splits)
  from forEachAsync_removes [where callback = "deleteOneFile ?P", OF spec_deleteOneFile_Done files]
  have "set (paths (disk (world s1))) \<subseteq> set (paths (disk w)) - set (filesToDelete pathsToDelete)"
    by simp
  moreover
  from forEachAsync_removes [where callback = "deleteOneFolder ?P", OF spec_deleteOneFolder_Done folders]
  have "set (paths (disk (world s2))) \<subseteq>
      set (paths (disk (world s1))) - set (foldersToDelete pathsToDelete)" .
  moreover have "disk (world s) = disk (world s2)"
    by (simp add: s report_def writeLine_def)
  ultimately show ?thesis by auto
qed

text \<open>Resolving operations that are already normalised and select nothing changes nothing.\<close>

lemma funpow_idempotent:
  assumes "f (f x) = f x"
  shows "(f ^^ Suc k) x = f x"
  using assms by (induction k) simp_all

lemma forEach_resolve_nothing:
  assumes "\<forall>r. r \<in> set rs \<longrightarrow> normalizeSpec P root (heap w r) = heap w r \<and>
      selectPaths P (heap w r) True (disk w) = Inr []"
  shows "forEachAsync rs (resolveOperation P root) c (res, w) = Done (res, w)"
  using assms
proof (induction rs)
  case Nil
  show ?case by simp
next
  case (Cons r rs)
  then have fixed: "normalizeSpec P root (heap w r) = heap w r"
    and empty: "selectPaths P (heap w r) True (disk w) = Inr []"
    by simp_all
  have "resolveOperation P root r (res, w) = Done (res, w)"
    by (simp add: resolveOperation_unfold fixed empty)
  with Cons show ?case by simp
qed

lemma deleteFilesInnerAsync_nothing:
  "deleteFilesInnerAsync P \<lparr>filesToDelete = [], foldersToDelete = []\<rparr> w =
     Done \<lparr>deletedFiles = 0, deletedFolders = 0, world = w\<rparr>"
  by (simp add: deleteFilesInnerAsync_def report_def)

text \<open>
  C8. On the concrete platform, with a normaliser that leaves a normalised
  operation as it is (the specification's "immutable once normalized"): if a run of the
  entry point is fulfilled, a second run on the same operation objects in the world the
  first one left resolves to two empty sets, deletes nothing (both counters are zero), is
  fulfilled, and leaves that world exactly as it found it, the terminal included.
\<close>

theorem pipeline_idempotent:
  assumes idem: "\<forall>r \<in> set ops.
      normalise root (normalise root (heap w r)) = normalise root (heap w r)"
    and first: "deleteFilesAsync (spec_platform glob normalise) root ops w = Done w1"
  shows "getPathsToDeleteAsync (spec_platform glob normalise) root ops w1 =
           Done (\<lparr>filesToDelete = [], foldersToDelete = []\<rparr>, w1) \<and>
         deleteFilesInnerAsync (spec_platform glob normalise)
           \<lparr>filesToDelete = [], foldersToDelete = []\<rparr> w1 =
           Done \<lparr>deletedFiles = 0, deletedFolders = 0, world = w1\<rparr> \<and>
         deleteFilesAsync (spec_platform glob normalise) root ops w1 = Done w1"
proof -
  let ?P = "spec_platform glob normalise"
  let ?none = "\<lparr>filesToDelete = [], foldersToDelete = []\<rparr>"
  from first obtain res wr s where
    resolved: "getPathsToDeleteAsync ?P root ops w = Done (res, wr)" and
    deleted: "deleteFilesInnerAsync ?P res wr = Done s" and
    w1: "w1 = world s"
    by (auto simp: deleteFilesAsync_def split: outcome.splits)
  from resolved have run: "forEachAsync ops (resolveOperation ?P root) (maxParallelism w) (?none, w) = Done (res, wr)"
    by (simp add: getPathsToDeleteAsync_def)
  from forEach_resolve_frame [of ops ?P root "maxParallelism w" "(?none, w)"] run
  have disk_wr: "disk wr = disk w" by simp
  from deleteFilesInnerAsync_heap [of ?P res wr] deleted w1
  have heap_w1: "heap w1 = heap wr" by simp
  from spec_deleteFilesInnerAsync_Done [OF deleted] w1 disk_wr
  have gone: "set (paths (disk w1)) \<subseteq>
      set (paths (disk w)) - (set (filesToDelete res) \<union> set (foldersToDelete res))"
    by simp
  have norm: "normalizeSpec ?P root = normalise root"
    by (simp add: spec_platform_def)
  have again: "normalizeSpec ?P root (heap w1 r) = heap w1 r \<and>
      selectPaths ?P (heap w1 r) True (disk w1) = Inr []" if r: "r \<in> set ops" for r
  proof
    from r obtain k where k: "count_list ops r = Suc k"
      by (cases "count_list ops r") (simp_all add: count_list_0_iff)
    from idem r have "normalise root (normalise root (heap w r)) = normalise root (heap w r)"
      by blast
    then have "(normalise root ^^ Suc k) (heap w r) = normalise root (heap w r)"
      by (rule funpow_idempotent)
    with forEach_resolve_heap [OF run] k norm heap_w1
    have held: "heap w1 r = normalise root (heap w r)"
      by simp
    with idem r norm show "normalizeSpec ?P root (heap w1 r) = heap w1 r"
      by simp
    from forEach_resolve_selected [OF run r] heap_w1 obtain sp where
      sp: "selectPaths ?P (heap w1 r) True (disk w) = Inr sp" and
      covered: "\<forall>p e. (p, e) \<in> set sp \<longrightarrow>
        (if isDirectory e then p \<in> set (foldersToDelete res)
         else p \<in> set (filesToDelete res))"
      by auto
    from sp obtain matches where matches: "glob (heap w1 r) = Some matches"
      by (auto simp: spec_platform_def spec_selectPaths_def split: option.splits)
    have "\<not> matches p" if p: "p \<in> set (paths (disk w1))" for p
    proof
      assume "matches p"
      moreover from p gone have "p \<in> set (paths (disk w))" by blast
      ultimately have "(p, dirent_of (disk w) p) \<in> set sp"
        using sp matches by (auto simp: spec_platform_def spec_selectPaths_def)
      with covered have "p \<in> set (filesToDelete res) \<union> set (foldersToDelete res)"
        by (cases "isDirectory (dirent_of (disk w) p)") auto
      with p gone show False by blast
    qed
    then have "filter (\<lambda>p. matches p \<and> (True \<or> \<not> isDirectory (dirent_of (disk w1) p)))
        (paths (disk w1)) = []"
      by (simp add: filter_empty_conv)
    with matches show "selectPaths ?P (heap w1 r) True (disk w1) = Inr []"
      by (simp add: spec_platform_def spec_selectPaths_def)
  qed
  then have second: "getPathsToDeleteAsync ?P root ops w1 = Done (?none, w1)"
    unfolding getPathsToDeleteAsync_def
    by (intro forEach_resolve_nothing) blast
  moreover note deleteFilesInnerAsync_nothing [of ?P w1]
  ultimately show ?thesis
    by (simp add: deleteFilesAsync_def)
qed


theorem pipeline_idempotent_witness:
  "\<exists>w1. deleteFilesAsync example_platform ''/proj'' [0] proj_world = Done w1 \<and>
     paths (disk w1) = [] \<and>
     printed (terminal w1) = [''Deleted 2 files and 1 folder''] \<and>
     deleteFilesAsync example_platform ''/proj'' [0] w1 = Done w1"
proof -
  let ?w1 = "final (deleteFilesAsync example_platform ''/proj'' [0] proj_world)"
  have evaluated: "case deleteFilesAsync example_platform ''/proj'' [0] proj_world of
      Done w1 \<Rightarrow> paths (disk w1) = [] \<and>
        printed (terminal w1) = [''Deleted 2 files and 1 folder'']
    | Threw e w1 \<Rightarrow> False"
    by (simp add: deleteFilesAsync_def resolver_defs model_defs example_defs summary_2_1)
  then have first: "deleteFilesAsync example_platform ''/proj'' [0] proj_world = Done ?w1"
    and gone: "paths (disk ?w1) = []"
    and line: "printed (terminal ?w1) = [''Deleted 2 files and 1 folder'']"
    by (cases "deleteFilesAsync example_platform ''/proj'' [0] proj_world"; simp)+
  have idem: "\<forall>r \<in> set [0]. resolve_pattern ''/proj'' (resolve_pattern ''/proj'' (heap proj_world r)) =
      resolve_pattern ''/proj'' (heap proj_world r)"
    by (simp add: resolve_pattern_def proj_world_def)
  from pipeline_idempotent [OF idem first [unfolded example_platform_def]]
  have "deleteFilesAsync example_platform ''/proj'' [0] ?w1 = Done ?w1"
    by (simp only: example_platform_def)
  with first gone line show ?thesis by blast
qed

end
